theory Spec2Isabelle
  imports Complex_Main "HOL-Library.Multiset"
begin

section \<open>Numbers\<close>

text \<open>
  The program computes on pandas/numpy float64 values. The model keeps the three
  non-finite values that the program can produce by dividing by zero, and idealises the
  finite ones to exact reals: rounding, overflow and underflow are not modelled, and
  zero carries no sign. Comparisons with \<open>NaN\<close> are false, as in Python.

  So the model and the program agree up to the rounding of float64. They differ where a
  result depends on a rounding: on a comparison within rounding distance of its
  threshold, on the order in which three or more numbers are added, and on values past
  the range of float64. The theorems below are stated for what does not depend on it.
\<close>

datatype pyfloat = Fin real | PInf | NInf | NaN

fun fneg :: "pyfloat \<Rightarrow> pyfloat" where
  "fneg (Fin x) = Fin (- x)"
| "fneg PInf = NInf"
| "fneg NInf = PInf"
| "fneg NaN = NaN"

fun fadd :: "pyfloat \<Rightarrow> pyfloat \<Rightarrow> pyfloat" where
  "fadd NaN _ = NaN"
| "fadd _ NaN = NaN"
| "fadd (Fin x) (Fin y) = Fin (x + y)"
| "fadd PInf NInf = NaN"
| "fadd NInf PInf = NaN"
| "fadd PInf _ = PInf"
| "fadd _ PInf = PInf"
| "fadd NInf _ = NInf"
| "fadd _ NInf = NInf"

definition fsub :: "pyfloat \<Rightarrow> pyfloat \<Rightarrow> pyfloat" where
  "fsub a b = fadd a (fneg b)"

text \<open>The sign of a value that is not \<open>NaN\<close>: \<open>-1\<close>, \<open>0\<close> or \<open>1\<close>.\<close>

fun fsign :: "pyfloat \<Rightarrow> real" where
  "fsign (Fin x) = sgn x"
| "fsign PInf = 1"
| "fsign NInf = - 1"
| "fsign NaN = 0"

definition signed_inf :: "real \<Rightarrow> pyfloat" where
  "signed_inf s = (if s = 0 then NaN else if 0 < s then PInf else NInf)"

fun fmul :: "pyfloat \<Rightarrow> pyfloat \<Rightarrow> pyfloat" where
  "fmul NaN _ = NaN"
| "fmul _ NaN = NaN"
| "fmul (Fin x) (Fin y) = Fin (x * y)"
| "fmul a b = signed_inf (fsign a * fsign b)"

fun fdiv :: "pyfloat \<Rightarrow> pyfloat \<Rightarrow> pyfloat" where
  "fdiv NaN _ = NaN"
| "fdiv _ NaN = NaN"
| "fdiv (Fin x) (Fin y) = (if y = 0 then signed_inf (sgn x) else Fin (x / y))"
| "fdiv (Fin x) _ = Fin 0"
| "fdiv a (Fin y) = signed_inf (fsign a * (if y < 0 then - 1 else 1))"
| "fdiv _ _ = NaN"

fun fsqrt :: "pyfloat \<Rightarrow> pyfloat" where
  "fsqrt (Fin x) = (if x < 0 then NaN else Fin (sqrt x))"
| "fsqrt PInf = PInf"
| "fsqrt NInf = NaN"
| "fsqrt NaN = NaN"

fun fless :: "pyfloat \<Rightarrow> pyfloat \<Rightarrow> bool" where
  "fless NaN _ = False"
| "fless _ NaN = False"
| "fless (Fin x) (Fin y) = (x < y)"
| "fless PInf _ = False"
| "fless _ PInf = True"
| "fless _ NInf = False"
| "fless NInf _ = True"

definition fmax :: "pyfloat \<Rightarrow> pyfloat \<Rightarrow> pyfloat" where
  "fmax a b = (if fless a b then b else a)"

definition fmin :: "pyfloat \<Rightarrow> pyfloat \<Rightarrow> pyfloat" where
  "fmin a b = (if fless b a then b else a)"

definition fsum :: "pyfloat list \<Rightarrow> pyfloat" where
  "fsum xs = foldl fadd (Fin 0) xs"


section \<open>Series operations of pandas\<close>

definition dropna :: "pyfloat list \<Rightarrow> pyfloat list" where
  "dropna xs = filter (\<lambda>x. x \<noteq> NaN) xs"

text \<open>
  \<open>Series.pct_change\<close>: the series divided by itself shifted by one place, minus one;
  the first place has no predecessor and is \<open>NaN\<close>. (Older pandas versions pad missing
  values forward first; that differs only on a series that mixes \<open>NaN\<close> with numbers.)
\<close>

fun pct_change :: "pyfloat list \<Rightarrow> pyfloat list" where
  "pct_change [] = []"
| "pct_change (x # xs) =
     NaN # map (\<lambda>(prev, cur). fsub (fdiv cur prev) (Fin 1)) (zip (x # xs) xs)"

text \<open>
  \<open>Series.std\<close>: the sample standard deviation (one degree of freedom removed) of the
  values that are not \<open>NaN\<close>; \<open>NaN\<close> when fewer than two remain.
\<close>

definition std :: "pyfloat list \<Rightarrow> pyfloat" where
  "std xs =
     (let vs = dropna xs; n = length vs in
      if n \<le> 1 then NaN
      else
        let avg = fdiv (fsum vs) (Fin (real n));
            sqr = map (\<lambda>v. fmul (fsub avg v) (fsub avg v)) vs
        in fsqrt (fdiv (fsum sqr) (Fin (real (n - 1)))))"

text \<open>
  \<open>Series.cummax\<close>: the running maximum, skipping \<open>NaN\<close>; a place holding \<open>NaN\<close>
  stays \<open>NaN\<close>. The first argument is the maximum so far, if any.
\<close>

fun cummax_from :: "pyfloat option \<Rightarrow> pyfloat list \<Rightarrow> pyfloat list" where
  "cummax_from m [] = []"
| "cummax_from m (x # xs) =
     (if x = NaN then NaN # cummax_from m xs
      else
        let m' = (case m of None \<Rightarrow> x | Some y \<Rightarrow> fmax y x)
        in m' # cummax_from (Some m') xs)"

definition cummax :: "pyfloat list \<Rightarrow> pyfloat list" where
  "cummax xs = cummax_from None xs"

text \<open>\<open>Series.min\<close>: the least value that is not \<open>NaN\<close>; \<open>NaN\<close> when there is none.\<close>

definition nanmin :: "pyfloat list \<Rightarrow> pyfloat" where
  "nanmin xs = (case dropna xs of [] \<Rightarrow> NaN | v # vs \<Rightarrow> foldl fmin v vs)"

section \<open>Results and failures\<close>

datatype exn = IndexError | KeyError | ValueError | LoadError | ArangeError

text \<open>
  The functions of the program return \<open>None\<close> on a failure they detect, each from its own
  \<open>return None\<close> (most after printing a warning of their own); \<open>failure\<close> names which one
  returned. To a caller all four are the one value \<open>None\<close>.
\<close>

datatype failure = InvalidWeights | NotFound | NoCommonDates | NoData

datatype 'a outcome = Raised exn | Failed failure | Ok 'a

section \<open>Curve Loader\<close>

type_synonym date = nat

text \<open>
  What \<open>pd.read_csv\<close> followed by the \<open>Date\<close> handling makes of a file: an exception
  (no \<open>Date\<close> column, unparsable text), or a frame indexed by date, with or without a
  \<open>Portfolio_Value\<close> column. The model takes the values to be finite numbers. It
  does not take the dates of a frame to be in ascending order, nor to be distinct.
\<close>

datatype dataframe = DataFrame "(date \<times> real) list" | NoValueColumn "date list"

datatype csv = Unparsable | Parsed dataframe

text \<open>The file system: the content of a path, \<open>None\<close> where no file exists.\<close>

type_synonym files = "string \<Rightarrow> csv option"

text \<open>\<open>str.lower\<close>, on ASCII text.\<close>

definition lower_char :: "char \<Rightarrow> char" where
  "lower_char c =
     (case map_of (zip ''ABCDEFGHIJKLMNOPQRSTUVWXYZ'' ''abcdefghijklmnopqrstuvwxyz'') c of
        Some l \<Rightarrow> l
      | None \<Rightarrow> c)"

definition lower :: "string \<Rightarrow> string" where
  "lower s = map lower_char s"

definition path_join :: "string \<Rightarrow> string \<Rightarrow> string" where
  "path_join a b =
     (if b \<noteq> [] \<and> hd b = CHR ''/'' then b
      else if a = [] \<or> last a = CHR ''/'' then a @ b
      else a @ ''/'' @ b)"

definition load_portfolio_history :: "string \<Rightarrow> string \<Rightarrow> string \<Rightarrow> files \<Rightarrow> dataframe outcome" where
  "load_portfolio_history ticker strategy_type results_dir fs =
     (let strategy_dir = path_join results_dir (ticker @ ''_'' @ lower strategy_type);
          portfolio_file = path_join strategy_dir ''portfolio_history.csv''
      in case fs portfolio_file of
           None \<Rightarrow> Failed NotFound
         | Some Unparsable \<Rightarrow> Raised LoadError
         | Some (Parsed df) \<Rightarrow> Ok df)"

section \<open>Metrics Calculator\<close>

record metrics =
  final_value :: pyfloat
  total_return :: pyfloat
  std_dev :: pyfloat
  max_drawdown :: pyfloat
  sharpe_ratio :: pyfloat
  volatility :: pyfloat

definition calculate_portfolio_metrics :: "pyfloat list \<Rightarrow> real \<Rightarrow> metrics option" where
  "calculate_portfolio_metrics combined_portfolio_value initial_capital =
     (if length combined_portfolio_value = 0 then None
      else
        let final_value = last combined_portfolio_value;
            total_return =
              fmul (fdiv (fsub final_value (Fin initial_capital)) (Fin initial_capital)) (Fin 100);
            daily_returns =
              map (\<lambda>r. fmul r (Fin 100)) (dropna (pct_change combined_portfolio_value));
            std_dev = std daily_returns;
            peak = cummax combined_portfolio_value;
            drawdown =
              map (\<lambda>(v, p). fmul (fdiv (fsub v p) p) (Fin 100)) (zip combined_portfolio_value peak);
            max_drawdown = nanmin drawdown;
            sharpe_ratio =
              (if fless (Fin 0) std_dev
               then fdiv (fsub total_return (Fin 2)) (fmul std_dev (Fin (sqrt 252)))
               else Fin 0)
        in Some \<lparr> final_value = final_value, total_return = total_return, std_dev = std_dev,
                  max_drawdown = max_drawdown, sharpe_ratio = sharpe_ratio,
                  volatility = fmul std_dev (Fin (sqrt 252)) \<rparr>)"

section \<open>Portfolio Combiner\<close>

record combined = metrics +
  strategies :: "(string \<times> string) list"
  weights :: "real list"
  portfolio_series :: "(date \<times> pyfloat) list"

fun index :: "dataframe \<Rightarrow> date list" where
  "index (DataFrame rows) = map fst rows"
| "index (NoValueColumn ds) = ds"

text \<open>
  \<open>Index.intersection\<close>: the dates of the left index that the right one has, in the
  left order. (pandas also drops the repetitions of a date; here a common date that the
  first frame repeats ends the blend at this frame either way.)
\<close>

definition intersection :: "date list \<Rightarrow> date list \<Rightarrow> date list" where
  "intersection a b = filter (\<lambda>d. d \<in> set b) a"

text \<open>
  \<open>df.loc[dates, 'Portfolio_Value']\<close>: for each of the dates in turn, every row of the
  frame with this date, as a series labelled by date. \<open>None\<close> stands for the KeyError
  (no such column, or a date that the frame does not have).
\<close>

fun loc :: "dataframe \<Rightarrow> date list \<Rightarrow> (date \<times> real) list option" where
  "loc (NoValueColumn _) ds = None"
| "loc (DataFrame rows) ds =
     (if set ds \<subseteq> fst ` set rows
      then Some (concat (map (\<lambda>d. filter (\<lambda>row. fst row = d) rows) ds))
      else None)"

fun load_all :: "(string \<times> string) list \<Rightarrow> string \<Rightarrow> files \<Rightarrow> dataframe list \<Rightarrow> dataframe list outcome" where
  "load_all [] results_dir fs portfolios = Ok portfolios"
| "load_all ((ticker, strategy_type) # rest) results_dir fs portfolios =
     (case load_portfolio_history ticker strategy_type results_dir fs of
        Raised e \<Rightarrow> Raised e
      | Failed f \<Rightarrow> Failed f
      | Ok df \<Rightarrow> load_all rest results_dir fs (portfolios @ [df]))"

text \<open>
  The blending loop, from place \<open>i\<close> of the enumeration on: \<open>combined_value\<close> holds the
  values of the sum so far, a series labelled by the common dates. A frame without the
  value column raises KeyError; a weight vector that is too short raises IndexError at
  \<open>weights[i]\<close>. The addition in place aligns the two series on their labels: it adds
  place by place when the labels of the strategy's values are the common dates, and
  raises ValueError when they are not, which is when the frame has a common date more
  than once. The sum is taken in exact arithmetic.
\<close>

fun blend :: "real \<Rightarrow> date list \<Rightarrow> real list \<Rightarrow> nat \<Rightarrow> dataframe list \<Rightarrow> pyfloat list \<Rightarrow> pyfloat list outcome" where
  "blend initial_capital common_dates ws i [] combined_value = Ok combined_value"
| "blend initial_capital common_dates ws i (df # dfs) combined_value =
     (case loc df common_dates of
        None \<Rightarrow> Raised KeyError
      | Some strategy_values \<Rightarrow>
          (case map snd strategy_values of
             [] \<Rightarrow> Raised IndexError
           | v0 # vs \<Rightarrow>
               let normalized_values =
                     map (\<lambda>v. fmul (fdiv (Fin v) (Fin v0)) (Fin initial_capital)) (v0 # vs)
               in if i < length ws
                  then if map fst strategy_values = common_dates
                       then blend initial_capital common_dates ws (Suc i) dfs
                              (map (\<lambda>(c, x). fadd c (fmul x (Fin (ws ! i))))
                                 (zip combined_value normalized_values))
                       else Raised ValueError
                  else Raised IndexError))"

text \<open>
  The check of the weights is made on their exact sum. The program makes it on the
  float64 sum, so the two can differ for a sum within rounding distance of 0.99 or 1.01.
\<close>

definition combine_portfolios :: "(string \<times> string) list \<Rightarrow> real list \<Rightarrow> real \<Rightarrow> string \<Rightarrow> files \<Rightarrow> combined outcome" where
  "combine_portfolios strats ws initial_capital results_dir fs =
     (if \<bar>sum_list ws - 1\<bar> > 1 / 100 then Failed InvalidWeights
      else
        case load_all strats results_dir fs [] of
          Raised e \<Rightarrow> Raised e
        | Failed f \<Rightarrow> Failed f
        | Ok [] \<Rightarrow> Raised IndexError
        | Ok (df # dfs) \<Rightarrow>
            (let common_dates = foldl intersection (index df) (map index dfs) in
             if length common_dates = 0 then Failed NoCommonDates
             else
               (case blend initial_capital common_dates ws 0 (df # dfs)
                       (map (\<lambda>d. Fin 0) common_dates) of
                  Raised e \<Rightarrow> Raised e
                | Failed f \<Rightarrow> Failed f
                | Ok combined_value \<Rightarrow>
                    (case calculate_portfolio_metrics combined_value initial_capital of
                       None \<Rightarrow> Failed NoData
                     | Some m \<Rightarrow>
                         Ok (metrics.extend m
                               (\<lparr> strategies = strats, weights = ws,
                                  portfolio_series = zip common_dates combined_value \<rparr>))))))"

section \<open>Weight-Space Optimizer\<close>

text \<open>\<open>np.arange\<close>: \<open>ceil((stop - start) / step)\<close> values \<open>start + i * step\<close>; a zero step raises.\<close>

definition arange :: "real \<Rightarrow> real \<Rightarrow> real \<Rightarrow> exn + real list" where
  "arange start stop step =
     (if step = 0 then Inl ArangeError
      else Inr (map (\<lambda>i. start + real i * step) [0..<nat \<lceil>(stop - start) / step\<rceil>]))"

text \<open>\<open>itertools.product(xs, repeat=n)\<close>: all tuples of length \<open>n\<close>, the last place running fastest.\<close>

fun product_repeat :: "'a list \<Rightarrow> nat \<Rightarrow> 'a list list" where
  "product_repeat xs 0 = [[]]"
| "product_repeat xs (Suc n) = concat (map (\<lambda>x. map ((#) x) (product_repeat xs n)) xs)"

text \<open>
  The tuples of the grid that pass the filter on their sum, before they are normalised.
  Grid and sum are exact here; float64 can put a tuple whose sum is within rounding
  distance of 0.99 or 1.01 on the other side of the filter.
\<close>

definition kept_tuples :: "nat \<Rightarrow> real \<Rightarrow> exn + real list list" where
  "kept_tuples n_strategies weight_step =
     (case arange 0 (1 + weight_step) weight_step of
        Inl e \<Rightarrow> Inl e
      | Inr weight_range \<Rightarrow>
          Inr (filter (\<lambda>ws. \<bar>sum_list ws - 1\<bar> < 1 / 100) (product_repeat weight_range n_strategies)))"

definition normalized :: "real list \<Rightarrow> real list" where
  "normalized ws = map (\<lambda>w. w / sum_list ws) ws"

definition weight_combinations :: "nat \<Rightarrow> real \<Rightarrow> exn + real list list" where
  "weight_combinations n_strategies weight_step =
     (case kept_tuples n_strategies weight_step of
        Inl e \<Rightarrow> Inl e
      | Inr kept \<Rightarrow> Inr (map normalized kept))"

text \<open>
  The evaluation loop: \<open>results\<close> collects the candidates whose combination succeeded.
  A \<open>None\<close> is skipped; nothing catches an exception, so it ends the loop.
\<close>

fun evaluate :: "(string \<times> string) list \<Rightarrow> real \<Rightarrow> string \<Rightarrow> files \<Rightarrow> real list list \<Rightarrow> combined list \<Rightarrow> exn + combined list" where
  "evaluate strats initial_capital results_dir fs [] results = Inr results"
| "evaluate strats initial_capital results_dir fs (ws # rest) results =
     (case combine_portfolios strats ws initial_capital results_dir fs of
        Raised e \<Rightarrow> Inl e
      | Failed f \<Rightarrow> evaluate strats initial_capital results_dir fs rest results
      | Ok m \<Rightarrow> evaluate strats initial_capital results_dir fs rest (results @ [m]))"

text \<open>
  \<open>results.sort(key=..., reverse=True)\<close>: a stable sort into descending order of the key.
  An entry goes in front of the first entry whose key is not greater than its own.
\<close>

fun insert_desc :: "combined \<Rightarrow> combined list \<Rightarrow> combined list" where
  "insert_desc r [] = [r]"
| "insert_desc r (x # xs) =
     (if fless (sharpe_ratio r) (sharpe_ratio x) then x # insert_desc r xs else r # x # xs)"

fun sort_desc :: "combined list \<Rightarrow> combined list" where
  "sort_desc [] = []"
| "sort_desc (r # rs) = insert_desc r (sort_desc rs)"

text \<open>The slice \<open>xs[:n]\<close>: a negative \<open>n\<close> counts from the end.\<close>

definition slice_to :: "int \<Rightarrow> 'a list \<Rightarrow> 'a list" where
  "slice_to n xs = (if 0 \<le> n then take (nat n) xs else take (length xs - nat (- n)) xs)"

definition optimize_portfolio :: "(string \<times> string) list \<Rightarrow> real \<Rightarrow> string \<Rightarrow> real \<Rightarrow> int \<Rightarrow> files \<Rightarrow> exn + combined list" where
  "optimize_portfolio strats initial_capital results_dir weight_step top_n fs =
     (let n_strategies = length strats in
      case weight_combinations n_strategies weight_step of
        Inl e \<Rightarrow> Inl e
      | Inr combos \<Rightarrow>
          (case evaluate strats initial_capital results_dir fs combos [] of
             Inl e \<Rightarrow> Inl e
           | Inr results \<Rightarrow> Inr (slice_to top_n (sort_desc results))))"

text \<open>The candidates whose combination succeeded, in the order of the enumeration.\<close>

definition successes :: "(string \<times> string) list \<Rightarrow> real \<Rightarrow> string \<Rightarrow> files \<Rightarrow> real list list \<Rightarrow> combined list" where
  "successes strats initial_capital results_dir fs combos =
     concat (map (\<lambda>ws. case combine_portfolios strats ws initial_capital results_dir fs of
                          Ok m \<Rightarrow> [m] | _ \<Rightarrow> []) combos)"

section \<open>Command line\<close>

text \<open>The parsed arguments; \<open>--custom_weights\<close> is \<open>None\<close> when the option is not given.\<close>

record args =
  arg_strategies :: "string list"
  arg_capital :: real
  arg_results_dir :: string
  arg_weight_step :: real
  arg_top_n :: int
  arg_custom_weights :: "real list option"

text \<open>
  What \<open>main\<close> reports before it returns: one of its two error messages, the outcome of
  the custom weights, that no combination was valid, or the ranking (which it prints
  and writes to the two export files).
\<close>

datatype report =
    InvalidStrategyFormat string
  | WeightCountMismatch nat nat
  | CustomPortfolio "combined option"
  | NoValidCombinations
  | TopPortfolios "combined list"

text \<open>\<open>s.split(sep)\<close> for a separator of one character.\<close>

fun split :: "char \<Rightarrow> string \<Rightarrow> string list" where
  "split sep [] = [[]]"
| "split sep (c # cs) =
     (if c = sep then [] # split sep cs
      else case split sep cs of [] \<Rightarrow> [[c]] | part # parts \<Rightarrow> (c # part) # parts)"

fun parse_strategies :: "string list \<Rightarrow> (string \<times> string) list \<Rightarrow> string + (string \<times> string) list" where
  "parse_strategies [] strats = Inr strats"
| "parse_strategies (s # rest) strats =
     (case split CHR '':'' s of
        [ticker, strategy_type] \<Rightarrow> parse_strategies rest (strats @ [(ticker, strategy_type)])
      | _ \<Rightarrow> Inl s)"

definition main :: "args \<Rightarrow> files \<Rightarrow> exn + report" where
  "main a fs =
     (case parse_strategies (arg_strategies a) [] of
        Inl s \<Rightarrow> Inr (InvalidStrategyFormat s)
      | Inr strats \<Rightarrow>
          (case arg_custom_weights a of
             Some (w # ws) \<Rightarrow>
               if length (w # ws) \<noteq> length strats
               then Inr (WeightCountMismatch (length (w # ws)) (length strats))
               else (case combine_portfolios strats (w # ws) (arg_capital a) (arg_results_dir a) fs of
                       Raised e \<Rightarrow> Inl e
                     | Failed f \<Rightarrow> Inr (CustomPortfolio None)
                     | Ok m \<Rightarrow> Inr (CustomPortfolio (Some m)))
           | _ \<Rightarrow>
               (case optimize_portfolio strats (arg_capital a) (arg_results_dir a)
                       (arg_weight_step a) (arg_top_n a) fs of
                  Inl e \<Rightarrow> Inl e
                | Inr [] \<Rightarrow> Inr NoValidCombinations
                | Inr top_portfolios \<Rightarrow> Inr (TopPortfolios top_portfolios))))"

section \<open>The drawdown as the specification words it\<close>

text \<open>
  The running peak at a place is the greatest value up to and including it; the
  drawdown there is (value - peak) / peak * 100; the maximum drawdown is the least
  drawdown over the curve.
\<close>

definition running_peak :: "real list \<Rightarrow> nat \<Rightarrow> real" where
  "running_peak xs i = Max (set (take (Suc i) xs))"

definition drawdown_at :: "real list \<Rightarrow> nat \<Rightarrow> real" where
  "drawdown_at xs i = (xs ! i - running_peak xs i) / running_peak xs i * 100"

definition least_drawdown :: "real list \<Rightarrow> real" where
  "least_drawdown xs = Min (drawdown_at xs ` {..<length xs})"

section \<open>The blend as a sum of shares\<close>

text \<open>
  The values of a frame on the common dates, where the loop goes through with them: one
  row for each date.
\<close>

definition values_at :: "dataframe \<Rightarrow> date list \<Rightarrow> real list option" where
  "values_at df common_dates =
     (case loc df common_dates of
        None \<Rightarrow> None
      | Some strategy_values \<Rightarrow>
          if map fst strategy_values = common_dates then Some (map snd strategy_values) else None)"

text \<open>
  The share of one strategy in the blended curve: its values on the common dates,
  rebased and weighted as the loop does. Empty where the loop would raise.
\<close>

definition share :: "real \<Rightarrow> date list \<Rightarrow> dataframe \<times> real \<Rightarrow> pyfloat list" where
  "share initial_capital common_dates p =
     (case values_at (fst p) common_dates of
        Some (v0 # vs) \<Rightarrow>
          map (\<lambda>v. fmul (fmul (fdiv (Fin v) (Fin v0)) (Fin initial_capital)) (Fin (snd p))) (v0 # vs)
      | _ \<Rightarrow> [])"

definition add_share :: "pyfloat list \<Rightarrow> pyfloat list \<Rightarrow> pyfloat list" where
  "add_share combined_value s = map (\<lambda>(c, x). fadd c x) (zip combined_value s)"

text \<open>The frame that a strategy loads to (a frame without dates when it does not load).\<close>

definition frame_of :: "string \<Rightarrow> files \<Rightarrow> string \<times> string \<Rightarrow> dataframe" where
  "frame_of results_dir fs p =
     (case load_portfolio_history (fst p) (snd p) results_dir fs of
        Ok df \<Rightarrow> df
      | _ \<Rightarrow> NoValueColumn [])"

section \<open>Example artifacts\<close>

text \<open>
  A small results directory: two ordinary curves, a curve that starts at zero, a file
  without the \<open>Portfolio_Value\<close> column, and nothing else.
\<close>

definition example_files :: files where
  "example_files =
     [''trading_results/A_aggressive/portfolio_history.csv'' \<mapsto>
        Parsed (DataFrame [(1, 100), (2, 110), (3, 121)]),
      ''trading_results/B_conservative/portfolio_history.csv'' \<mapsto>
        Parsed (DataFrame [(1, 200), (2, 200), (3, 220)]),
      ''trading_results/Z_aggressive/portfolio_history.csv'' \<mapsto>
        Parsed (DataFrame [(1, 0), (2, 5)]),
      ''trading_results/M_aggressive/portfolio_history.csv'' \<mapsto>
        Parsed (NoValueColumn [1, 2])]"

text \<open>
  A second results directory, with values on which float64 rounds nothing in the blend
  and in the returns: a curve that rises, a flat curve, and two curves on the same two
  dates, of which the first has its rows in descending order of date.
\<close>

definition exact_files :: files where
  "exact_files =
     [''trading_results/X_aggressive/portfolio_history.csv'' \<mapsto>
        Parsed (DataFrame [(1, 100), (2, 100), (3, 150), (4, 300)]),
      ''trading_results/Y_conservative/portfolio_history.csv'' \<mapsto>
        Parsed (DataFrame [(1, 100), (2, 100), (3, 100), (4, 100)]),
      ''trading_results/U_aggressive/portfolio_history.csv'' \<mapsto>
        Parsed (DataFrame [(2, 100), (1, 200)]),
      ''trading_results/P_aggressive/portfolio_history.csv'' \<mapsto>
        Parsed (DataFrame [(1, 100), (2, 400)])]"

section \<open>The grid of candidate weights\<close>

text \<open>
  C6: for two strategies and a weight step of 1.0, the tuples that pass the filter on
  their sum (before they are normalised) are exactly (0, 1) and (1, 0), in this order.
\<close>

theorem kept_tuples_two_step_one:
  "kept_tuples (length [s1, s2 :: string \<times> string]) 1 = Inr [[0, 1], [1, 0]]"
  by (simp add: kept_tuples_def arange_def upt_rec numeral_2_eq_2)

section \<open>Flat curves\<close>

lemma flat_is_replicate:
  "\<forall>i. Suc i < length xs \<longrightarrow> xs ! Suc i = xs ! i \<Longrightarrow> xs = replicate (length xs) (hd xs)"
proof (induction xs)
  case Nil
  then show ?case by simp
next
  case (Cons a xs)
  show ?case
  proof (cases xs)
    case Nil
    then show ?thesis by simp
  next
    case (Cons b ys)
    from Cons.prems have "\<forall>i. Suc i < length xs \<longrightarrow> xs ! Suc i = xs ! i"
      by fastforce
    then have ih: "xs = replicate (length xs) (hd xs)" by (rule Cons.IH)
    from Cons.prems[rule_format, of 0] Cons have "b = a" by simp
    with ih Cons show ?thesis by simp
  qed
qed

lemma fsum_zeros: "fsum (replicate k (Fin 0)) = Fin 0"
  unfolding fsum_def by (induction k) simp_all

lemma std_zeros: "std (replicate k (Fin 0)) = NaN \<or> std (replicate k (Fin 0)) = Fin 0"
proof (cases "k \<le> 1")
  case True
  then show ?thesis by (simp add: std_def dropna_def)
next
  case False
  then have "std (replicate k (Fin 0)) = Fin 0"
    by (simp add: std_def dropna_def fsum_zeros fsub_def Let_def map_replicate_const)
  then show ?thesis by simp
qed

lemma self_change: "fsub (fdiv c c) (Fin 1) = NaN \<or> fsub (fdiv c c) (Fin 1) = Fin 0"
  by (cases c) (simp_all add: fsub_def signed_inf_def)

lemma pct_change_replicate:
  "pct_change (replicate (Suc n) c) = NaN # replicate n (fsub (fdiv c c) (Fin 1))"
proof -
  have "zip (c # replicate n c) (replicate n c) = replicate n (c, c)"
    using zip_replicate[of "Suc n" c n c] by simp
  then show ?thesis by simp
qed

lemma returns_flat:
  "\<exists>k. map (\<lambda>r. fmul r (Fin 100)) (dropna (pct_change (replicate (Suc n) c))) = replicate k (Fin 0)"
proof -
  from self_change[of c] show ?thesis
  proof
    assume "fsub (fdiv c c) (Fin 1) = NaN"
    then have "map (\<lambda>r. fmul r (Fin 100)) (dropna (pct_change (replicate (Suc n) c))) = replicate 0 (Fin 0)"
      by (simp only: pct_change_replicate) (simp add: dropna_def)
    then show ?thesis ..
  next
    assume "fsub (fdiv c c) (Fin 1) = Fin 0"
    then have "map (\<lambda>r. fmul r (Fin 100)) (dropna (pct_change (replicate (Suc n) c))) = replicate n (Fin 0)"
      by (simp only: pct_change_replicate) (simp add: dropna_def)
    then show ?thesis ..
  qed
qed

text \<open>
  C4: for every non-empty curve whose consecutive values are all equal,
  \<open>calculate_portfolio_metrics\<close> returns metrics whose Sharpe ratio is the number 0
  (not an infinity, not \<open>NaN\<close>). A curve of length 1 is the case where no two values
  are consecutive.
\<close>

theorem flat_curve_sharpe_zero:
  assumes "xs \<noteq> []" and "\<forall>i. Suc i < length xs \<longrightarrow> xs ! Suc i = xs ! i"
  shows "\<exists>m. calculate_portfolio_metrics xs initial_capital = Some m \<and> sharpe_ratio m = Fin 0"
proof -
  from assms obtain n where xs: "xs = replicate (Suc n) (hd xs)"
    using flat_is_replicate[of xs] by (cases xs) auto
  obtain k where k: "map (\<lambda>r. fmul r (Fin 100)) (dropna (pct_change xs)) = replicate k (Fin 0)"
    using returns_flat[of n "hd xs"] xs by metis
  have "\<not> fless (Fin 0) (std (replicate k (Fin 0)))"
    using std_zeros[of k] by auto
  with k assms(1) show ?thesis
    by (simp add: calculate_portfolio_metrics_def Let_def)
qed

theorem flat_curve_sharpe_zero_witness:
  "[Fin 5, Fin 5, Fin 5] \<noteq> [] \<and>
   (\<exists>m. calculate_portfolio_metrics [Fin 5, Fin 5, Fin 5] 20000 = Some m \<and> sharpe_ratio m = Fin 0)"
proof -
  have h: "\<forall>i. Suc i < length [Fin 5, Fin 5, Fin 5] \<longrightarrow>
             [Fin 5, Fin 5, Fin 5] ! Suc i = [Fin 5, Fin 5, Fin 5] ! i"
    by (simp add: nth_Cons')
  from flat_curve_sharpe_zero[OF _ h, of 20000] show ?thesis by simp
qed

section \<open>The weight check of the combiner\<close>

lemma load_all_failed: "load_all strats results_dir fs acc = Failed f \<Longrightarrow> f = NotFound"
proof (induction strats arbitrary: acc)
  case Nil
  then show ?case by simp
next
  case (Cons s strats)
  obtain ticker strategy_type where s: "s = (ticker, strategy_type)" by (cases s)
  from Cons.prems show ?case
    unfolding s
    by (auto simp: load_portfolio_history_def Let_def
        split: outcome.splits option.splits csv.splits dest: Cons.IH)
qed

lemma blend_not_failed: "blend initial_capital ds ws i dfs acc \<noteq> Failed f"
  by (induction dfs arbitrary: i acc) (auto simp: Let_def split: option.splits list.splits)

lemma combine_invalid_weights_iff:
  "combine_portfolios strats ws initial_capital results_dir fs = Failed InvalidWeights
     \<longleftrightarrow> \<bar>sum_list ws - 1\<bar> > 1 / 100"
proof (cases "\<bar>sum_list ws - 1\<bar> > 1 / 100")
  case True
  then show ?thesis by (simp add: combine_portfolios_def)
next
  case False
  then have "combine_portfolios strats ws initial_capital results_dir fs \<noteq> Failed InvalidWeights"
    by (auto simp: combine_portfolios_def Let_def blend_not_failed
        split: outcome.splits list.splits option.splits dest: load_all_failed)
  with False show ?thesis by simp
qed

lemma sum_list_divide: "sum_list (map (\<lambda>w. w / s) ws) = sum_list ws / (s::real)"
  by (induction ws) (simp_all add: add_divide_distrib)

lemma kept_tuples_sum:
  assumes "kept_tuples n weight_step = Inr kept" and "t \<in> set kept"
  shows "\<bar>sum_list t - 1\<bar> < 1 / 100"
  using assms by (auto simp: kept_tuples_def split: sum.splits)

text \<open>
  C10: every tuple that the optimizer's filter keeps has a sum within 0.01 of 1, hence a
  positive one, so the division by its own sum never divides by zero; the normalised
  tuple sums to 1, and the combiner's check on the sum of the weights never rejects it.
\<close>

theorem kept_tuples_normalizable:
  assumes "kept_tuples n weight_step = Inr kept" and "t \<in> set kept"
  shows "\<bar>sum_list t - 1\<bar> < 1 / 100 \<and> 0 < sum_list t \<and>
         weight_combinations n weight_step = Inr (map normalized kept) \<and>
         sum_list (normalized t) = 1 \<and>
         combine_portfolios strats (normalized t) initial_capital results_dir fs \<noteq> Failed InvalidWeights"
proof -
  have near: "\<bar>sum_list t - 1\<bar> < 1 / 100" using assms by (rule kept_tuples_sum)
  then have pos: "0 < sum_list t" by linarith
  then have one: "sum_list (normalized t) = 1"
    by (simp add: normalized_def sum_list_divide)
  then have "\<not> \<bar>sum_list (normalized t) - 1\<bar> > 1 / 100" by simp
  then have "combine_portfolios strats (normalized t) initial_capital results_dir fs \<noteq> Failed InvalidWeights"
    by (simp add: combine_invalid_weights_iff)
  with near pos one assms(1) show ?thesis by (simp add: weight_combinations_def)
qed

theorem kept_tuples_normalizable_witness:
  "kept_tuples 2 1 = Inr [[0, 1], [1, 0]] \<and> \<bar>sum_list [0, 1 :: real] - 1\<bar> < 1 / 100 \<and> 0 < sum_list [0, 1 :: real] \<and>
         weight_combinations 2 1 = Inr (map normalized [[0, 1], [1, 0]]) \<and>
         sum_list (normalized [0, 1]) = 1 \<and>
         combine_portfolios [] (normalized [0, 1]) 20000 ''trading_results'' (\<lambda>p. None) \<noteq> Failed InvalidWeights"
proof -
  have k: "kept_tuples 2 1 = Inr [[0, 1], [1, 0]]"
    by (simp add: kept_tuples_def arange_def upt_rec numeral_2_eq_2)
  have m: "[0, 1 :: real] \<in> set [[0, 1], [1, 0]]" by simp
  from kept_tuples_normalizable[OF k m, of "[]" 20000 "''trading_results''" "\<lambda>p. None"] k show ?thesis by simp
qed

section \<open>Evaluating the example artifacts\<close>

lemmas metric_defs = calculate_portfolio_metrics_def std_def dropna_def fsub_def fsum_def
  cummax_def nanmin_def fmax_def fmin_def Let_def signed_inf_def

lemmas load_defs = load_portfolio_history_def path_join_def lower_def lower_char_def
  example_files_def

lemma load_A: "load_portfolio_history ''A'' ''Aggressive'' ''trading_results'' example_files
   = Ok (DataFrame [(1, 100), (2, 110), (3, 121)])"
  by (simp add: load_defs)

lemma load_B: "load_portfolio_history ''B'' ''Conservative'' ''trading_results'' example_files
   = Ok (DataFrame [(1, 200), (2, 200), (3, 220)])"
  by (simp add: load_defs)


lemma load_M: "load_portfolio_history ''M'' ''Aggressive'' ''trading_results'' example_files
   = Ok (NoValueColumn [1, 2])"
  by (simp add: load_defs)

lemma load_Q: "load_portfolio_history ''Q'' ''Aggressive'' ''trading_results'' example_files
   = Failed NotFound"
  by (simp add: load_defs)

section \<open>Count of weights against count of strategies\<close>

text \<open>
  C9, as stated, fails on \<open>combine_portfolios\<close>: it never compares the two lengths.
  Given one strategy and the two weights 0.5 and 0.5 it loads the curve and blends it
  with the first weight alone.
\<close>

theorem combine_prefix_of_weights:
  "combine_portfolios [(''A'', ''Aggressive'')] [1 / 2, 1 / 2] 100 ''trading_results'' example_files =
     Ok \<lparr> final_value = Fin (121 / 2), total_return = Fin (- 79 / 2), std_dev = Fin 0,
          max_drawdown = Fin 0, sharpe_ratio = Fin 0, volatility = Fin 0,
          strategies = [(''A'', ''Aggressive'')], weights = [1 / 2, 1 / 2],
          portfolio_series = [(1, Fin 50), (2, Fin 55), (3, Fin (121 / 2))] \<rparr>"
  by (simp add: combine_portfolios_def load_A intersection_def metric_defs metrics.extend_def)

text \<open>
  C9, amended: the check is made by \<open>main\<close>. When \<open>--custom_weights\<close> is given and
  the number of weights differs from the number of strategies, \<open>main\<close> reports the
  mismatch and returns, whatever the files are: no curve is loaded, nothing is computed.
\<close>

theorem main_rejects_count_mismatch:
  assumes "parse_strategies (arg_strategies a) [] = Inr strats"
      and "arg_custom_weights a = Some ws" and "ws \<noteq> []"
      and "length ws \<noteq> length strats"
  shows "main a fs = Inr (WeightCountMismatch (length ws) (length strats))"
  using assms by (cases ws) (simp_all add: main_def)

theorem main_rejects_count_mismatch_witness:
  "main \<lparr> arg_strategies = [''A:Aggressive''], arg_capital = 100,
          arg_results_dir = ''trading_results'', arg_weight_step = 1 / 10, arg_top_n = 10,
          arg_custom_weights = Some [1 / 2, 1 / 2] \<rparr> example_files
     = Inr (WeightCountMismatch 2 1)"
proof -
  have p: "parse_strategies [''A:Aggressive''] [] = Inr [(''A'', ''Aggressive'')]"
    by simp
  show ?thesis
    using main_rejects_count_mismatch[of "\<lparr> arg_strategies = [''A:Aggressive''], arg_capital = 100,
          arg_results_dir = ''trading_results'', arg_weight_step = 1 / 10, arg_top_n = 10,
          arg_custom_weights = Some [1 / 2, 1 / 2] \<rparr>" "[(''A'', ''Aggressive'')]" "[1 / 2, 1 / 2]" example_files] p
    by simp
qed

section \<open>Maximum drawdown\<close>

lemma running_peak_0: "running_peak (x # xs) 0 = x"
  by (simp add: running_peak_def)

lemma running_peak_Suc: "running_peak (x # xs) (Suc i) = max x (Max (set (take (Suc i) xs)))" if "xs \<noteq> []"
proof -
  from that have "set (take (Suc i) xs) \<noteq> {}" by (cases xs) auto
  then show ?thesis by (simp add: running_peak_def)
qed

lemma upt_Suc_shift: "[0..<Suc n] = 0 # map Suc [0..<n]"
  by (simp add: upt_conv_Cons map_Suc_upt del: upt_Suc)

lemma cummax_from_Fin:
  "cummax_from (Some (Fin m)) (map Fin xs)
     = map (\<lambda>i. Fin (max m (Max (set (take (Suc i) xs))))) [0..<length xs]"
proof (induction xs arbitrary: m)
  case Nil
  then show ?case by simp
next
  case (Cons y ys)
  have tail: "max (max m y) (Max (set (take (Suc i) ys))) = max m (Max (set (take (Suc (Suc i)) (y # ys))))"
    if "i < length ys" for i
  proof -
    from that have "set (take (Suc i) ys) \<noteq> {}" by (cases ys) auto
    then show ?thesis by (simp add: max.assoc)
  qed
  have "cummax_from (Some (Fin m)) (map Fin (y # ys))
          = Fin (max m y) # cummax_from (Some (Fin (max m y))) (map Fin ys)"
    by (simp add: fmax_def max_def Let_def)
  also have "\<dots> = Fin (max m y) # map (\<lambda>i. Fin (max (max m y) (Max (set (take (Suc i) ys))))) [0..<length ys]"
    by (simp only: Cons.IH)
  also have "\<dots> = Fin (max m y) # map (\<lambda>i. Fin (max m (Max (set (take (Suc (Suc i)) (y # ys)))))) [0..<length ys]"
    using tail by simp
  also have "\<dots> = map (\<lambda>i. Fin (max m (Max (set (take (Suc i) (y # ys)))))) (0 # map Suc [0..<length ys])"
    by (simp add: comp_def)
  also have "\<dots> = map (\<lambda>i. Fin (max m (Max (set (take (Suc i) (y # ys)))))) [0..<length (y # ys)]"
    by (simp only: upt_Suc_shift length_Cons)
  finally show ?case .
qed

lemma cummax_Fin: "cummax (map Fin xs) = map (\<lambda>i. Fin (running_peak xs i)) [0..<length xs]"
proof (cases xs)
  case Nil
  then show ?thesis by (simp add: cummax_def)
next
  case (Cons y ys)
  have tail: "max y (Max (set (take (Suc i) ys))) = running_peak (y # ys) (Suc i)"
    if "i < length ys" for i
    using that running_peak_Suc[of ys y i] by (cases ys) auto
  have "cummax (map Fin (y # ys)) = Fin y # cummax_from (Some (Fin y)) (map Fin ys)"
    by (simp add: cummax_def Let_def)
  also have "\<dots> = Fin y # map (\<lambda>i. Fin (max y (Max (set (take (Suc i) ys))))) [0..<length ys]"
    by (simp only: cummax_from_Fin)
  also have "\<dots> = Fin (running_peak (y # ys) 0) # map (\<lambda>i. Fin (running_peak (y # ys) (Suc i))) [0..<length ys]"
    using tail by (simp add: running_peak_0)
  also have "\<dots> = map (\<lambda>i. Fin (running_peak (y # ys) i)) [0..<length (y # ys)]"
    by (simp add: upt_Suc_shift comp_def del: upt_Suc)
  finally show ?thesis using Cons by simp
qed

lemma zip_with_index: "zip xs (map g [0..<length xs]) = map (\<lambda>i. (xs ! i, g i)) [0..<length xs]"
proof -
  have "zip (map ((!) xs) [0..<length xs]) (map g [0..<length xs])
          = map (\<lambda>i. (xs ! i, g i)) [0..<length xs]"
    by (simp add: zip_map_map zip_same_conv_map)
  then show ?thesis by (simp add: map_nth)
qed

lemma drawdown_Fin:
  assumes "\<forall>i<length xs. running_peak xs i \<noteq> 0"
  shows "map (\<lambda>(v, p). fmul (fdiv (fsub v p) p) (Fin 100)) (zip (map Fin xs) (cummax (map Fin xs)))
           = map (\<lambda>i. Fin (drawdown_at xs i)) [0..<length xs]"
proof -
  have "zip (map Fin xs) (cummax (map Fin xs))
          = map (\<lambda>i. (Fin (xs ! i), Fin (running_peak xs i))) [0..<length xs]"
    using zip_with_index[of "map Fin xs" "\<lambda>i. Fin (running_peak xs i)"]
    by (simp add: cummax_Fin)
  then show ?thesis using assms by (simp add: fsub_def drawdown_at_def)
qed

lemma foldl_fmin_Fin: "foldl fmin (Fin y) (map Fin ys) = Fin (Min (set (y # ys)))"
proof (induction ys arbitrary: y)
  case Nil
  then show ?case by simp
next
  case (Cons z zs)
  have "fmin (Fin y) (Fin z) = Fin (min y z)" by (simp add: fmin_def min_def)
  then have "foldl fmin (Fin y) (map Fin (z # zs)) = Fin (Min (set (min y z # zs)))"
    by (simp add: Cons.IH)
  also have "Min (set (min y z # zs)) = Min (set (y # z # zs))"
    by (cases "zs = []") (simp_all add: min.assoc)
  finally show ?case .
qed

lemma nanmin_Fin: "ys \<noteq> [] \<Longrightarrow> nanmin (map Fin ys) = Fin (Min (set ys))"
proof -
  assume "ys \<noteq> []"
  then obtain z zs where ys: "ys = z # zs" by (cases ys) auto
  have "dropna (map Fin ys) = map Fin ys" by (simp add: dropna_def filter_map comp_def)
  then show ?thesis unfolding nanmin_def ys using foldl_fmin_Fin[of z zs] by simp
qed

text \<open>
  C8, as stated, fails for the curve of length 1 whose value is 0: its running peak is 0,
  the drawdown is \<open>0 / 0\<close>, and the minimum over no number is \<open>NaN\<close>, not 0.
\<close>

theorem single_zero_drawdown:
  "calculate_portfolio_metrics [Fin 0] 100 =
     Some \<lparr> final_value = Fin 0, total_return = Fin (- 100), std_dev = NaN, max_drawdown = NaN,
            sharpe_ratio = Fin 0, volatility = NaN \<rparr>"
  by (simp add: metric_defs)

text \<open>
  C8, amended: for every non-empty curve of finite values whose running peak (the
  greatest value so far) is never 0, \<open>calculate_portfolio_metrics\<close> returns as
  \<open>max_drawdown\<close> the least, over all places, of (value - peak) / peak * 100; for a
  curve of length 1 this is 0.
\<close>

theorem max_drawdown_is_least_drawdown:
  assumes "xs \<noteq> []" and "\<forall>i<length xs. running_peak xs i \<noteq> 0"
  shows "\<exists>m. calculate_portfolio_metrics (map Fin xs) initial_capital = Some m \<and>
             max_drawdown m = Fin (least_drawdown xs) \<and>
             (length xs = 1 \<longrightarrow> max_drawdown m = Fin 0)"
proof -
  have "nanmin (map (\<lambda>(v, p). fmul (fdiv (fsub v p) p) (Fin 100)) (zip (map Fin xs) (cummax (map Fin xs))))
          = nanmin (map Fin (map (drawdown_at xs) [0..<length xs]))"
    by (simp only: drawdown_Fin[OF assms(2)]) (simp add: comp_def)
  also have "\<dots> = Fin (Min (set (map (drawdown_at xs) [0..<length xs])))"
    using assms(1) by (intro nanmin_Fin) simp
  also have "set (map (drawdown_at xs) [0..<length xs]) = drawdown_at xs ` {..<length xs}"
    by (simp add: atLeast0LessThan)
  finally have dd: "nanmin (map (\<lambda>(v, p). fmul (fdiv (fsub v p) p) (Fin 100))
                      (zip (map Fin xs) (cummax (map Fin xs)))) = Fin (least_drawdown xs)"
    by (simp add: least_drawdown_def)
  have one: "least_drawdown xs = 0" if "length xs = 1"
  proof -
    from that obtain x where "xs = [x]" by (cases xs) auto
    then show ?thesis by (simp add: least_drawdown_def drawdown_at_def running_peak_def lessThan_Suc)
  qed
  from assms(1) dd one show ?thesis
    by (simp add: calculate_portfolio_metrics_def Let_def)
qed

theorem max_drawdown_is_least_drawdown_witness:
  "[100, 110, 99 :: real] \<noteq> [] \<and>
   (\<exists>m. calculate_portfolio_metrics (map Fin [100, 110, 99]) 100 = Some m \<and>
        max_drawdown m = Fin (least_drawdown [100, 110, 99]) \<and> least_drawdown [100, 110, 99] = - 10)"
proof -
  have p: "\<forall>i<length [100, 110, 99 :: real]. running_peak [100, 110, 99] i \<noteq> 0"
    by (simp add: running_peak_def less_Suc_eq numeral_3_eq_3 all_conj_distrib)
  have l: "least_drawdown [100, 110, 99] = - 10"
    by (simp add: least_drawdown_def drawdown_at_def running_peak_def lessThan_Suc numeral_3_eq_3)
  from max_drawdown_is_least_drawdown[OF _ p, of 100] l show ?thesis by auto
qed

section \<open>The sweep over the candidates\<close>

lemma successes_Cons:
  "successes strats initial_capital results_dir fs (ws # rest) =
     (case combine_portfolios strats ws initial_capital results_dir fs of Ok m \<Rightarrow> [m] | _ \<Rightarrow> [])
       @ successes strats initial_capital results_dir fs rest"
  by (simp add: successes_def)

lemma successes_Nil: "successes strats initial_capital results_dir fs [] = []"
  by (simp add: successes_def)

lemma evaluate_no_raise:
  assumes "\<forall>ws\<in>set combos. \<forall>e. combine_portfolios strats ws initial_capital results_dir fs \<noteq> Raised e"
  shows "evaluate strats initial_capital results_dir fs combos results
           = Inr (results @ successes strats initial_capital results_dir fs combos)"
  using assms
proof (induction combos arbitrary: results)
  case Nil
  then show ?case by (simp add: successes_Nil)
next
  case (Cons ws rest)
  then show ?case
    by (cases "combine_portfolios strats ws initial_capital results_dir fs")
       (simp_all add: successes_Cons)
qed


lemma set_successes:
  "set (successes strats initial_capital results_dir fs combos)
     = {r. \<exists>ws\<in>set combos. combine_portfolios strats ws initial_capital results_dir fs = Ok r}"
  by (induction combos) (auto simp: successes_Nil successes_Cons split: outcome.splits)

lemma optimize_no_raise:
  assumes "weight_combinations (length strats) weight_step = Inr combos"
      and "\<forall>ws\<in>set combos. \<forall>e. combine_portfolios strats ws initial_capital results_dir fs \<noteq> Raised e"
  shows "optimize_portfolio strats initial_capital results_dir weight_step top_n fs
           = Inr (slice_to top_n (sort_desc (successes strats initial_capital results_dir fs combos)))"
  using assms(1) evaluate_no_raise[OF assms(2), of "[]"]
  by (simp add: optimize_portfolio_def)


lemma weight_combinations_2_1: "weight_combinations (Suc (Suc 0)) 1 = Inr [[0, 1], [1, 0]]"
  by (simp add: weight_combinations_def kept_tuples_def arange_def upt_rec normalized_def)

text \<open>
  C3, as stated, fails for a malformed artifact: a file without the \<open>Portfolio_Value\<close>
  column makes \<open>combine_portfolios\<close> raise KeyError, nothing in the sweep catches it,
  and \<open>optimize_portfolio\<close> ends with the exception at the first candidate instead of
  dropping it and going on.
\<close>

theorem sweep_aborts_on_malformed:
  "optimize_portfolio [(''A'', ''Aggressive''), (''M'', ''Aggressive'')] 100 ''trading_results'' 1 10
     example_files = Inl KeyError"
  by (simp add: optimize_portfolio_def weight_combinations_2_1 combine_portfolios_def load_A load_M
      intersection_def)

text \<open>
  C3, amended: in a sweep where no candidate's combination raises an exception, every
  candidate whose combination returns \<open>None\<close> (weights rejected, artifact not found, no
  common date, empty curve) is dropped and the sweep goes on to the end: the results are
  exactly the results of the candidates that succeeded, in the order of the enumeration,
  with no entry for a failed one, and \<open>optimize_portfolio\<close> returns them sorted and cut.
\<close>

theorem sweep_drops_failed_candidates:
  assumes "\<forall>ws\<in>set combos. \<forall>e. combine_portfolios strats ws initial_capital results_dir fs \<noteq> Raised e"
  shows "evaluate strats initial_capital results_dir fs combos []
           = Inr (successes strats initial_capital results_dir fs combos) \<and>
         set (successes strats initial_capital results_dir fs combos)
           = {r. \<exists>ws\<in>set combos. combine_portfolios strats ws initial_capital results_dir fs = Ok r} \<and>
         (weight_combinations (length strats) weight_step = Inr combos \<longrightarrow>
            optimize_portfolio strats initial_capital results_dir weight_step top_n fs
              = Inr (slice_to top_n (sort_desc (successes strats initial_capital results_dir fs combos))))"
  using evaluate_no_raise[OF assms, of "[]"] optimize_no_raise[OF _ assms] set_successes
  by simp

lemma combine_A_Q:
  "\<bar>sum_list ws - 1\<bar> \<le> 1 / 100 \<Longrightarrow>
   combine_portfolios [(''A'', ''Aggressive''), (''Q'', ''Aggressive'')] ws 100 ''trading_results''
     example_files = Failed NotFound"
  by (simp add: combine_portfolios_def load_A load_Q)

theorem sweep_drops_failed_candidates_witness:
  "evaluate [(''A'', ''Aggressive''), (''Q'', ''Aggressive'')] 100 ''trading_results'' example_files
     [[0, 1], [1, 0]] [] = Inr [] \<and>
   weight_combinations (length [(''A'', ''Aggressive''), (''Q'', ''Aggressive'')]) 1 = Inr [[0, 1], [1, 0]] \<and>
   optimize_portfolio [(''A'', ''Aggressive''), (''Q'', ''Aggressive'')] 100 ''trading_results'' 1 10
     example_files = Inr []"
proof -
  have s: "successes [(''A'', ''Aggressive''), (''Q'', ''Aggressive'')] 100 ''trading_results''
             example_files [[0, 1], [1, 0]] = []"
    by (simp add: successes_def combine_A_Q)
  have n: "\<forall>ws\<in>set [[0, 1], [1, 0]]. \<forall>e.
             combine_portfolios [(''A'', ''Aggressive''), (''Q'', ''Aggressive'')] ws 100
               ''trading_results'' example_files \<noteq> Raised e"
    by (simp add: combine_A_Q)
  from sweep_drops_failed_candidates[OF n, of 1 10] s weight_combinations_2_1
  show ?thesis by (simp add: slice_to_def)
qed

section \<open>The blended curve\<close>

lemma rows_of_date:
  assumes "distinct (map fst rows)" and "d \<in> fst ` set rows"
  shows "filter (\<lambda>row. fst row = d) rows = [(d, the (map_of rows d))]"
  using assms
proof (induction rows)
  case Nil
  then show ?case by simp
next
  case (Cons row rows)
  obtain k v where row: "row = (k, v)" by (cases row)
  show ?case
  proof (cases "k = d")
    case True
    with Cons.prems row have "d \<notin> fst ` set rows" by auto
    then have "filter (\<lambda>row. fst row = d) rows = []"
      by (auto simp: filter_empty_conv)
    with True row show ?thesis by simp
  next
    case False
    with Cons row show ?thesis by auto
  qed
qed

lemma loc_distinct:
  assumes "distinct (map fst rows)" and "set ds \<subseteq> fst ` set rows"
  shows "loc (DataFrame rows) ds = Some (map (\<lambda>d. (d, the (map_of rows d))) ds)"
proof -
  have "concat (map (\<lambda>d. filter (\<lambda>row. fst row = d) rows) ds)
          = map (\<lambda>d. (d, the (map_of rows d))) ds"
    using assms(2)
  proof (induction ds)
    case Nil
    then show ?case by simp
  next
    case (Cons d ds)
    then show ?case using rows_of_date[OF assms(1), of d] by simp
  qed
  with assms(2) show ?thesis by simp
qed

lemma values_at_distinct:
  assumes "distinct (map fst rows)" and "set ds \<subseteq> fst ` set rows"
  shows "values_at (DataFrame rows) ds = Some (map (\<lambda>d. the (map_of rows d)) ds)"
  unfolding values_at_def loc_distinct[OF assms] by (simp add: comp_def)

lemma values_at_length: "values_at df ds = Some vs \<Longrightarrow> length vs = length ds"
  by (auto simp: values_at_def split: option.splits if_splits)

lemma foldl_intersection:
  "foldl intersection a bs = filter (\<lambda>d. \<forall>b\<in>set bs. d \<in> set b) a"
  by (induction bs arbitrary: a) (auto simp: intersection_def intro: filter_cong)

lemma common_dates_subset:
  "f \<in> set (df # dfs) \<Longrightarrow> set (foldl intersection (index df) (map index dfs)) \<subseteq> set (index f)"
  by (auto simp: foldl_intersection)

lemma load_all_length:
  "load_all strats results_dir fs acc = Ok dfs \<Longrightarrow> length dfs = length acc + length strats"
proof (induction strats arbitrary: acc)
  case Nil
  then show ?case by simp
next
  case (Cons s strats)
  obtain ticker strategy_type where s: "s = (ticker, strategy_type)" by (cases s)
  from Cons.prems obtain d where "load_all strats results_dir fs (acc @ [d]) = Ok dfs"
    unfolding s by (auto split: outcome.splits)
  from Cons.IH[OF this] show ?case by simp
qed

lemma share_length:
  "values_at (fst p) ds = Some (v0 # vs) \<Longrightarrow> length (share initial_capital ds p) = length ds"
  by (auto simp: share_def dest: values_at_length)

lemma zip_map_fuse:
  "map (\<lambda>(c, x). h c (k x)) (zip acc ys) = map (\<lambda>(c, x). h c x) (zip acc (map k ys))"
  by (simp add: zip_map2 case_prod_unfold comp_def)

lemma blend_step:
  assumes "values_at df ds = Some (v0 # vs)"
  shows "map (\<lambda>(c, x). fadd c (fmul x (Fin w)))
           (zip acc (map (\<lambda>v. fmul (fdiv (Fin v) (Fin v0)) (Fin initial_capital)) (v0 # vs)))
         = add_share acc (share initial_capital ds (df, w))"
proof -
  define g where "g = (\<lambda>v. fmul (fdiv (Fin v) (Fin v0)) (Fin initial_capital))"
  have "share initial_capital ds (df, w) = map (\<lambda>x. fmul x (Fin w)) (map g (v0 # vs))"
    using assms by (simp add: share_def g_def)
  then show ?thesis
    unfolding add_share_def g_def[symmetric]
    using zip_map_fuse[of fadd "\<lambda>x. fmul x (Fin w)" acc "map g (v0 # vs)"] by simp
qed

lemma blend_Cons:
  assumes "values_at df ds = Some (v0 # vs)" and "i < length ws"
  shows "blend initial_capital ds ws i (df # dfs) acc
           = blend initial_capital ds ws (Suc i) dfs (add_share acc (share initial_capital ds (df, ws ! i)))"
proof -
  from assms(1) obtain sv where sv: "loc df ds = Some sv" "map fst sv = ds" "map snd sv = v0 # vs"
    by (auto simp: values_at_def split: option.splits if_splits)
  show ?thesis
    using sv assms(2) blend_step[OF assms(1), of "ws ! i" acc initial_capital]
    by (simp add: Let_def del: list.map zip_Cons_Cons)
qed

lemma blend_fold:
  assumes "\<forall>df\<in>set dfs. \<exists>v0 vs. values_at df ds = Some (v0 # vs)" and "length dfs \<le> length ws - i"
  shows "blend initial_capital ds ws i dfs acc
           = Ok (foldl add_share acc (map (share initial_capital ds) (zip dfs (drop i ws))))"
  using assms
proof (induction dfs arbitrary: i acc)
  case Nil
  then show ?case by simp
next
  case (Cons df dfs)
  from Cons.prems(1) obtain v0 vs where l: "values_at df ds = Some (v0 # vs)" by auto
  from Cons.prems(2) have i: "i < length ws" by simp
  then have d: "drop i ws = ws ! i # drop (Suc i) ws" by (simp add: Cons_nth_drop_Suc)
  have "blend initial_capital ds ws i (df # dfs) acc
          = blend initial_capital ds ws (Suc i) dfs (add_share acc (share initial_capital ds (df, ws ! i)))"
    using l i by (rule blend_Cons)
  also have "\<dots> = Ok (foldl add_share (add_share acc (share initial_capital ds (df, ws ! i)))
                         (map (share initial_capital ds) (zip dfs (drop (Suc i) ws))))"
    using Cons.prems by (intro Cons.IH) auto
  finally show ?case by (simp add: d)
qed

lemma blend_Ok_D:
  "blend initial_capital ds ws i dfs acc = Ok s \<Longrightarrow>
     (\<forall>df\<in>set dfs. \<exists>v0 vs. values_at df ds = Some (v0 # vs)) \<and> length dfs \<le> length ws - i"
proof (induction dfs arbitrary: i acc)
  case Nil
  then show ?case by simp
next
  case (Cons df dfs)
  from Cons.prems obtain sv v0 vs acc' where l: "loc df ds = Some sv" "map snd sv = v0 # vs"
    "map fst sv = ds" and i: "i < length ws"
    and b: "blend initial_capital ds ws (Suc i) dfs acc' = Ok s"
    by (auto simp: Let_def split: option.splits list.splits if_splits simp del: list.map)
  from l have "values_at df ds = Some (v0 # vs)" by (simp add: values_at_def)
  with Cons.IH[OF b] i show ?case by auto
qed

lemma share_head:
  assumes "values_at df (d0 # ds) = Some (v0 # vs)" and "v0 \<noteq> 0"
  shows "\<exists>t. share initial_capital (d0 # ds) (df, w) = Fin (initial_capital * w) # t"
  using assms by (simp add: share_def)

lemma foldl_add_share_head:
  assumes "\<forall>p\<in>set ps. \<exists>t. share initial_capital cd p = Fin (initial_capital * snd p) # t"
  shows "\<exists>t. foldl add_share (Fin a # acc) (map (share initial_capital cd) ps)
               = Fin (a + initial_capital * sum_list (map snd ps)) # t"
  using assms
proof (induction ps arbitrary: a acc)
  case Nil
  then show ?case by simp
next
  case (Cons p ps)
  from Cons.prems obtain t where t: "share initial_capital cd p = Fin (initial_capital * snd p) # t"
    by auto
  have "add_share (Fin a # acc) (share initial_capital cd p)
          = Fin (a + initial_capital * snd p) # add_share acc t"
    by (simp add: t add_share_def)
  moreover from Cons.prems
  have "\<exists>t'. foldl add_share (Fin (a + initial_capital * snd p) # add_share acc t)
                 (map (share initial_capital cd) ps)
               = Fin ((a + initial_capital * snd p) + initial_capital * sum_list (map snd ps)) # t'"
    by (intro Cons.IH) simp
  ultimately show ?case by (simp add: algebra_simps)
qed

lemma values_at_common_dates:
  assumes "f \<in> set (df # dfs)" and "f = DataFrame rows" and "distinct (index f)"
      and "foldl intersection (index df) (map index dfs) = cd"
  shows "values_at f cd = Some (map (\<lambda>d. the (map_of rows d)) cd)"
proof -
  from common_dates_subset[OF assms(1)] assms(2,4) have "set cd \<subseteq> fst ` set rows" by simp
  moreover from assms(2,3) have "distinct (map fst rows)" by simp
  ultimately show ?thesis unfolding assms(2) by (intro values_at_distinct)
qed

lemma combine_first_value:
  assumes loaded: "load_all strats results_dir fs [] = Ok (df # dfs)"
      and dist: "\<forall>f\<in>set (df # dfs). distinct (index f)"
      and common: "foldl intersection (index df) (map index dfs) = d0 # ds"
      and nonzero: "\<forall>f\<in>set (df # dfs). \<exists>rows. f = DataFrame rows \<and> map_of rows d0 \<noteq> Some 0"
      and len: "length ws = length strats"
      and tol: "\<bar>sum_list ws - 1\<bar> \<le> 1 / 100"
  shows "\<exists>r. combine_portfolios strats ws initial_capital results_dir fs = Ok r \<and>
             hd (portfolio_series r) = (d0, Fin (initial_capital * sum_list ws))"
proof -
  let ?cd = "d0 # ds"
  let ?ps = "zip (df # dfs) ws"
  have n: "length (df # dfs) = length ws"
    using load_all_length[OF loaded] len by simp
  have locs: "\<exists>v0 vs. values_at f ?cd = Some (v0 # vs) \<and> v0 \<noteq> 0" if "f \<in> set (df # dfs)" for f
  proof -
    from nonzero that obtain rows where f: "f = DataFrame rows" and nz: "map_of rows d0 \<noteq> Some 0"
      by blast
    from dist that have "distinct (index f)" by blast
    with that f common have l: "values_at f ?cd = Some (map (\<lambda>d. the (map_of rows d)) ?cd)"
      by (intro values_at_common_dates)
    from common_dates_subset[OF that] common f have "d0 \<in> fst ` set rows" by auto
    then obtain v where "map_of rows d0 = Some v"
      by (metis map_of_eq_None_iff not_Some_eq)
    with nz l show ?thesis by auto
  qed
  then have all: "\<forall>f\<in>set (df # dfs). \<exists>v0 vs. values_at f ?cd = Some (v0 # vs)" by blast
  have b: "blend initial_capital ?cd ws 0 (df # dfs) (map (\<lambda>d. Fin 0) ?cd)
             = Ok (foldl add_share (map (\<lambda>d. Fin 0) ?cd) (map (share initial_capital ?cd) ?ps))"
    using blend_fold[OF all, of ws 0 initial_capital "map (\<lambda>d. Fin 0) ?cd"] n by simp
  have heads: "\<forall>p\<in>set ?ps. \<exists>t. share initial_capital ?cd p = Fin (initial_capital * snd p) # t"
  proof
    fix p assume p: "p \<in> set ?ps"
    then have "fst p \<in> set (df # dfs)" by (metis in_set_zipE prod.collapse)
    from locs[OF this] obtain v0 vs where "values_at (fst p) ?cd = Some (v0 # vs)" "v0 \<noteq> 0" by blast
    from share_head[OF this, of initial_capital "snd p"]
    show "\<exists>t. share initial_capital ?cd p = Fin (initial_capital * snd p) # t" by simp
  qed
  obtain t where t: "foldl add_share (map (\<lambda>d. Fin 0) ?cd) (map (share initial_capital ?cd) ?ps)
                       = Fin (initial_capital * sum_list ws) # t"
    using foldl_add_share_head[OF heads, of 0 "map (\<lambda>d. Fin 0) ds"] n by auto
  have "calculate_portfolio_metrics (Fin (initial_capital * sum_list ws) # t) initial_capital \<noteq> None"
    by (simp add: calculate_portfolio_metrics_def Let_def)
  then obtain m where m: "calculate_portfolio_metrics (Fin (initial_capital * sum_list ws) # t) initial_capital = Some m"
    by blast
  have "combine_portfolios strats ws initial_capital results_dir fs
          = Ok (metrics.extend m \<lparr> strategies = strats, weights = ws,
                  portfolio_series = zip ?cd (Fin (initial_capital * sum_list ws) # t) \<rparr>)"
    unfolding combine_portfolios_def using tol
    by (simp add: loaded common b t m del: blend.simps list.map foldl_Cons zip_Cons_Cons)
  then show ?thesis by (simp add: metrics.extend_def)
qed

section \<open>First value of the blended curve\<close>

lemmas exact_load_defs = load_portfolio_history_def path_join_def lower_def lower_char_def
  exact_files_def

lemma load_X: "load_portfolio_history ''X'' ''Aggressive'' ''trading_results'' exact_files
   = Ok (DataFrame [(1, 100), (2, 100), (3, 150), (4, 300)])"
  by (simp add: exact_load_defs)

lemma load_Y: "load_portfolio_history ''Y'' ''Conservative'' ''trading_results'' exact_files
   = Ok (DataFrame [(1, 100), (2, 100), (3, 100), (4, 100)])"
  by (simp add: exact_load_defs)

lemma load_U: "load_portfolio_history ''U'' ''Aggressive'' ''trading_results'' exact_files
   = Ok (DataFrame [(2, 100), (1, 200)])"
  by (simp add: exact_load_defs)

lemma load_P: "load_portfolio_history ''P'' ''Aggressive'' ''trading_results'' exact_files
   = Ok (DataFrame [(1, 100), (2, 400)])"
  by (simp add: exact_load_defs)

lemma load_all_X_Y:
  "load_all [(''X'', ''Aggressive''), (''Y'', ''Conservative'')] ''trading_results'' exact_files []
     = Ok [DataFrame [(1, 100), (2, 100), (3, 150), (4, 300)],
           DataFrame [(1, 100), (2, 100), (3, 100), (4, 100)]]"
  by (simp add: load_X load_Y)

lemma distinct_X_Y:
  "\<forall>f\<in>set [DataFrame [(1, 100), (2, 100), (3, 150), (4, 300)],
              DataFrame [(1, 100), (2, 100), (3, 100), (4, 100)]]. distinct (index f)"
  by simp

lemma common_X_Y:
  "foldl intersection (index (DataFrame [(1, 100), (2, 100), (3, 150), (4, 300)]))
     (map index [DataFrame [(1, 100), (2, 100), (3, 100), (4, 100)]]) = [1, 2, 3, 4]"
  by (simp add: intersection_def)

lemma nonzero_X_Y:
  "\<forall>f\<in>set [DataFrame [(1, 100), (2, 100), (3, 150), (4, 300)],
              DataFrame [(1, 100), (2, 100), (3, 100), (4, 100)]].
     \<exists>rows. f = DataFrame rows \<and> map_of rows (1::nat) \<noteq> Some 0"
  by simp




section \<open>The ranking\<close>



















section \<open>Order of the strategies\<close>

lemma combine_Ok_D:
  assumes "combine_portfolios strats ws initial_capital results_dir fs = Ok r"
  shows "\<exists>df dfs s m.
           \<bar>sum_list ws - 1\<bar> \<le> 1 / 100 \<and>
           load_all strats results_dir fs [] = Ok (df # dfs) \<and>
           foldl intersection (index df) (map index dfs) \<noteq> [] \<and>
           blend initial_capital (foldl intersection (index df) (map index dfs)) ws 0 (df # dfs)
             (map (\<lambda>d. Fin 0) (foldl intersection (index df) (map index dfs))) = Ok s \<and>
           calculate_portfolio_metrics s initial_capital = Some m \<and>
           r = metrics.extend m \<lparr> strategies = strats, weights = ws,
                 portfolio_series = zip (foldl intersection (index df) (map index dfs)) s \<rparr>"
proof (cases "\<bar>sum_list ws - 1\<bar> > 1 / 100")
  case True
  with assms show ?thesis by (simp add: combine_portfolios_def)
next
  case tol: False
  show ?thesis
  proof (cases "load_all strats results_dir fs []")
    case (Raised e)
    with assms tol show ?thesis by (simp add: combine_portfolios_def)
  next
    case (Failed f)
    with assms tol show ?thesis by (simp add: combine_portfolios_def)
  next
    case (Ok frames)
    show ?thesis
    proof (cases frames)
      case Nil
      with assms tol Ok show ?thesis by (simp add: combine_portfolios_def)
    next
      case (Cons df dfs)
      let ?cd = "foldl intersection (index df) (map index dfs)"
      from assms tol Ok Cons have cd: "?cd \<noteq> []"
        by (auto simp: combine_portfolios_def Let_def split: if_splits simp del: blend.simps)
      show ?thesis
      proof (cases "blend initial_capital ?cd ws 0 (df # dfs) (map (\<lambda>d. Fin 0) ?cd)")
        case (Raised e)
        with assms tol Ok Cons cd show ?thesis
          by (simp add: combine_portfolios_def Let_def del: blend.simps)
      next
        case (Failed f)
        with assms tol Ok Cons cd show ?thesis
          by (simp add: combine_portfolios_def Let_def del: blend.simps)
      next
        case b: (Ok s)
        with assms tol Ok Cons cd show ?thesis
          by (cases "calculate_portfolio_metrics s initial_capital")
             (auto simp: combine_portfolios_def Let_def simp del: blend.simps)
      qed
    qed
  qed
qed

lemma load_all_Ok_D:
  "load_all strats results_dir fs acc = Ok frames \<Longrightarrow>
     frames = acc @ map (frame_of results_dir fs) strats \<and>
     (\<forall>p\<in>set strats. \<exists>df. load_portfolio_history (fst p) (snd p) results_dir fs = Ok df)"
proof (induction strats arbitrary: acc)
  case Nil
  then show ?case by simp
next
  case (Cons s strats)
  obtain ticker strategy_type where s: "s = (ticker, strategy_type)" by (cases s)
  from Cons.prems obtain d where d: "load_portfolio_history ticker strategy_type results_dir fs = Ok d"
    and l: "load_all strats results_dir fs (acc @ [d]) = Ok frames"
    unfolding s by (auto split: outcome.splits)
  from Cons.IH[OF l] d show ?case by (simp add: s frame_of_def)
qed

lemma load_all_Ok_I:
  "\<forall>p\<in>set strats. \<exists>df. load_portfolio_history (fst p) (snd p) results_dir fs = Ok df \<Longrightarrow>
     load_all strats results_dir fs acc = Ok (acc @ map (frame_of results_dir fs) strats)"
proof (induction strats arbitrary: acc)
  case Nil
  then show ?case by simp
next
  case (Cons s strats)
  obtain ticker strategy_type where s: "s = (ticker, strategy_type)" by (cases s)
  from Cons.prems obtain d where d: "load_portfolio_history ticker strategy_type results_dir fs = Ok d"
    unfolding s by auto
  from Cons.prems have "load_all strats results_dir fs (acc @ [d])
                          = Ok ((acc @ [d]) @ map (frame_of results_dir fs) strats)"
    by (intro Cons.IH) simp
  with d show ?case by (simp add: s frame_of_def)
qed

lemma fadd_comm: "fadd a b = fadd b a"
  by (cases a; cases b) simp_all

lemma fadd_zero_left: "fadd (Fin 0) a = a"
  by (cases a) simp_all

text \<open>
  Two shares added to a curve of zeros, in either order: only that \<open>0 + x = x\<close> and
  that addition commutes is used, which float64 has as well.
\<close>

lemma add_share_zeros_commute:
  "add_share (add_share (map (\<lambda>d. Fin 0) ds) a) b = add_share (add_share (map (\<lambda>d. Fin 0) ds) b) a"
proof (induction ds arbitrary: a b)
  case Nil
  then show ?case by (simp add: add_share_def)
next
  case (Cons d ds)
  show ?case
  proof (cases a)
    case Nil
    then show ?thesis by (cases b) (simp_all add: add_share_def)
  next
    case a: (Cons x xs)
    show ?thesis
    proof (cases b)
      case Nil
      then show ?thesis by (simp add: add_share_def)
    next
      case b: (Cons y ys)
      have "fadd (fadd (Fin 0) x) y = fadd (fadd (Fin 0) y) x"
        by (simp only: fadd_zero_left) (rule fadd_comm)
      moreover have "add_share (add_share (map (\<lambda>d. Fin 0) ds) xs) ys
                       = add_share (add_share (map (\<lambda>d. Fin 0) ds) ys) xs"
        by (rule Cons.IH)
      ultimately show ?thesis unfolding a b by (simp add: add_share_def)
    qed
  qed
qed

lemma mset_at_most_two:
  assumes "mset xs' = mset xs" and "length xs \<le> 2"
  shows "xs' = xs \<or> (\<exists>a b. xs = [a, b] \<and> xs' = [b, a])"
proof -
  from assms(1) have len: "length xs' = length xs" by (metis size_mset)
  show ?thesis
  proof (cases xs)
    case Nil
    with len show ?thesis by simp
  next
    case (Cons a ys)
    show ?thesis
    proof (cases ys)
      case Nil
      with Cons len assms(1) show ?thesis by (cases xs') auto
    next
      case ys: (Cons b zs)
      with Cons assms(2) have xs: "xs = [a, b]" by simp
      with len obtain c d where xs': "xs' = [c, d]"
        by (cases xs'; cases "tl xs'") auto
      from assms(1) have "add_mset c {#d#} = add_mset a {#b#}" by (simp add: xs xs')
      then have "(c = a \<and> d = b) \<or> (c = b \<and> d = a)"
        by (auto simp: add_eq_conv_diff)
      with xs xs' show ?thesis by auto
    qed
  qed
qed

lemma foldl_add_share_pair:
  assumes "mset shares' = mset shares" and "length shares \<le> 2"
  shows "foldl add_share (map (\<lambda>d. Fin 0) ds) shares' = foldl add_share (map (\<lambda>d. Fin 0) ds) shares"
  using mset_at_most_two[OF assms] by (auto simp: add_share_zeros_commute)

lemma set_common_dates:
  "set (foldl intersection (index df) (map index dfs)) = (\<Inter>f\<in>set (df # dfs). set (index f))"
  by (auto simp: foldl_intersection)

lemma sorted_common_dates:
  "sorted_wrt (<) (index df) \<Longrightarrow> sorted_wrt (<) (foldl intersection (index df) (map index dfs))"
  by (simp add: foldl_intersection sorted_wrt_filter)

lemma common_dates_mset:
  assumes "mset (df' # dfs') = mset (df # dfs)"
      and "\<forall>f\<in>set (df # dfs). sorted_wrt (<) (index f)"
  shows "foldl intersection (index df') (map index dfs') = foldl intersection (index df) (map index dfs)"
proof -
  from assms(1) have s: "set (df' # dfs') = set (df # dfs)" by (rule mset_eq_setD)
  then have "df' \<in> set (df # dfs)" by auto
  with assms(2) have "sorted_wrt (<) (index df')" "sorted_wrt (<) (index df)" by auto
  then have "sorted_wrt (<) (foldl intersection (index df') (map index dfs'))"
    "sorted_wrt (<) (foldl intersection (index df) (map index dfs))"
    by (simp_all add: sorted_common_dates)
  moreover have "set (foldl intersection (index df') (map index dfs'))
                   = set (foldl intersection (index df) (map index dfs))"
    by (simp only: set_common_dates s)
  ultimately show ?thesis by (intro strict_sorted_equal)
qed


lemma sum_list_zip_mset:
  assumes "mset (zip strats' ws') = mset (zip strats ws)"
      and "length ws = length strats" and "length ws' = length strats'"
  shows "sum_list ws' = (sum_list ws :: real)" and "mset strats' = mset strats"
proof -
  have "mset (map snd (zip strats' ws')) = mset (map snd (zip strats ws))"
    using assms(1) by (metis mset_map)
  then have "mset ws' = mset ws" using assms(2,3) by simp
  then show "sum_list ws' = sum_list ws" by (metis sum_mset_sum_list)
  have "mset (map fst (zip strats' ws')) = mset (map fst (zip strats ws))"
    using assms(1) by (metis mset_map)
  then show "mset strats' = mset strats" using assms(2,3) by simp
qed

lemma combine_order_invariant_main:
  assumes perm: "mset (zip strats' ws') = mset (zip strats ws)"
      and len: "length ws = length strats" and len': "length ws' = length strats'"
      and two: "length strats \<le> 2"
      and asc: "\<forall>p\<in>set strats. sorted_wrt (<) (index (frame_of results_dir fs p))"
      and ok: "combine_portfolios strats ws initial_capital results_dir fs = Ok r"
  shows "\<exists>r'. combine_portfolios strats' ws' initial_capital results_dir fs = Ok r' \<and>
              metrics.truncate r' = metrics.truncate r \<and>
              portfolio_series r' = portfolio_series r"
proof -
  let ?g = "frame_of results_dir fs"
  from combine_Ok_D[OF ok] obtain df dfs s m where
    tol: "\<bar>sum_list ws - 1\<bar> \<le> 1 / 100" and
    loaded: "load_all strats results_dir fs [] = Ok (df # dfs)" and
    cd: "foldl intersection (index df) (map index dfs) \<noteq> []" and
    b: "blend initial_capital (foldl intersection (index df) (map index dfs)) ws 0 (df # dfs)
          (map (\<lambda>d. Fin 0) (foldl intersection (index df) (map index dfs))) = Ok s" and
    m: "calculate_portfolio_metrics s initial_capital = Some m" and
    r: "r = metrics.extend m \<lparr> strategies = strats, weights = ws,
              portfolio_series = zip (foldl intersection (index df) (map index dfs)) s \<rparr>"
    by blast
  let ?cd = "foldl intersection (index df) (map index dfs)"
  let ?zeros = "map (\<lambda>d. Fin 0) ?cd"
  from sum_list_zip_mset[OF perm len len'] have sum': "sum_list ws' = sum_list ws"
    and ms: "mset strats' = mset strats" by blast+
  then have set': "set strats' = set strats" by (metis set_mset_mset)
  from load_all_Ok_D[OF loaded] have frames: "df # dfs = map ?g strats"
    and all_ok: "\<forall>p\<in>set strats. \<exists>df. load_portfolio_history (fst p) (snd p) results_dir fs = Ok df"
    by simp_all
  from all_ok set' have loaded': "load_all strats' results_dir fs [] = Ok (map ?g strats')"
    using load_all_Ok_I[of strats' results_dir fs "[]"] by simp
  from frames ms have "mset (map ?g strats') = mset (df # dfs)" by (metis mset_map)
  moreover from this obtain df' dfs' where frames': "map ?g strats' = df' # dfs'"
    by (cases "map ?g strats'") auto
  ultimately have mf: "mset (df' # dfs') = mset (df # dfs)" by simp
  have "\<forall>f\<in>set (df # dfs). sorted_wrt (<) (index f)"
    using asc unfolding frames by simp
  with mf have cd': "foldl intersection (index df') (map index dfs') = ?cd"
    by (rule common_dates_mset)
  have pairs: "mset (zip (df' # dfs') ws') = mset (zip (df # dfs) ws)"
  proof -
    have "zip (map ?g strats') ws' = map (\<lambda>(p, w). (?g p, w)) (zip strats' ws')"
      by (simp add: zip_map1 case_prod_unfold)
    moreover have "zip (map ?g strats) ws = map (\<lambda>(p, w). (?g p, w)) (zip strats ws)"
      by (simp add: zip_map1 case_prod_unfold)
    ultimately show ?thesis using perm unfolding frames frames'[symmetric] by (metis mset_map)
  qed
  from blend_Ok_D[OF b] have locs: "\<forall>f\<in>set (df # dfs). \<exists>v0 vs. values_at f ?cd = Some (v0 # vs)" by blast
  from mf have "set (df' # dfs') = set (df # dfs)" by (rule mset_eq_setD)
  with locs have locs': "\<forall>f\<in>set (df' # dfs'). \<exists>v0 vs. values_at f ?cd = Some (v0 # vs)" by simp
  have n: "length (df # dfs) \<le> length ws - 0" using frames len by (metis diff_zero length_map order_refl)
  have n': "length (df' # dfs') \<le> length ws' - 0" using frames' len' by (metis diff_zero length_map order_refl)
  from blend_fold[OF locs n, of initial_capital ?zeros] b
  have s: "s = foldl add_share ?zeros (map (share initial_capital ?cd) (zip (df # dfs) ws))" by simp
  have "mset (map (share initial_capital ?cd) (zip (df' # dfs') ws'))
          = mset (map (share initial_capital ?cd) (zip (df # dfs) ws))"
    using pairs by (metis mset_map)
  moreover have "length (map (share initial_capital ?cd) (zip (df # dfs) ws)) \<le> 2"
    using two len frames by (metis length_map length_zip min.idem)
  ultimately have "foldl add_share ?zeros (map (share initial_capital ?cd) (zip (df' # dfs') ws')) = s"
    unfolding s by (rule foldl_add_share_pair)
  with blend_fold[OF locs' n', of initial_capital ?zeros]
  have b': "blend initial_capital ?cd ws' 0 (df' # dfs') ?zeros = Ok s" by simp
  have "combine_portfolios strats' ws' initial_capital results_dir fs
          = Ok (metrics.extend m \<lparr> strategies = strats', weights = ws', portfolio_series = zip ?cd s \<rparr>)"
    unfolding combine_portfolios_def using tol cd
    by (simp add: sum' loaded' frames' cd' b' m Let_def del: blend.simps)
  then show ?thesis by (simp add: r metrics.extend_def metrics.truncate_def)
qed

text \<open>
  C7, as stated, fails when a curve's rows are not in ascending order of date: the
  common dates come in the order of the first strategy's rows, and each curve is rebased
  on the first of them. With U (rows of dates 2, 1) before P (rows of dates 1, 2) the
  curves are rebased on date 2 and the blend ends at 112.5; with P before U they are
  rebased on date 1 and the blend ends at 225. The weights are 0.5 and 0.5 both times.
\<close>

theorem unsorted_dates_order_dependent:
  "combine_portfolios [(''U'', ''Aggressive''), (''P'', ''Aggressive'')] [1 / 2, 1 / 2] 100
     ''trading_results'' exact_files =
     Ok \<lparr> final_value = Fin (225 / 2), total_return = Fin (25 / 2), std_dev = NaN,
          max_drawdown = Fin 0, sharpe_ratio = Fin 0, volatility = NaN,
          strategies = [(''U'', ''Aggressive''), (''P'', ''Aggressive'')], weights = [1 / 2, 1 / 2],
          portfolio_series = [(2, Fin 100), (1, Fin (225 / 2))] \<rparr> \<and>
   combine_portfolios [(''P'', ''Aggressive''), (''U'', ''Aggressive'')] [1 / 2, 1 / 2] 100
     ''trading_results'' exact_files =
     Ok \<lparr> final_value = Fin 225, total_return = Fin 125, std_dev = NaN,
          max_drawdown = Fin 0, sharpe_ratio = Fin 0, volatility = NaN,
          strategies = [(''P'', ''Aggressive''), (''U'', ''Aggressive'')], weights = [1 / 2, 1 / 2],
          portfolio_series = [(1, Fin 100), (2, Fin 225)] \<rparr>"
  by (simp add: combine_portfolios_def load_U load_P intersection_def metric_defs metrics.extend_def)

text \<open>
  C7, amended: let at most two strategies with their weights be rearranged by one
  permutation (the pairs of strategy and weight are the same multiset), each strategy's
  curve having strictly increasing dates. If \<open>combine_portfolios\<close> succeeds on the one
  arrangement, it succeeds on the other with the same final value, total return,
  standard deviation, maximum drawdown, Sharpe ratio and volatility, and the same
  blended curve.
\<close>

theorem combine_order_invariant:
  assumes "mset (zip strats' ws') = mset (zip strats ws)"
      and "length ws = length strats" and "length ws' = length strats'"
      and "length strats \<le> 2"
      and "\<forall>p\<in>set strats. sorted_wrt (<) (index (frame_of results_dir fs p))"
      and "combine_portfolios strats ws initial_capital results_dir fs = Ok r"
  shows "\<exists>r'. combine_portfolios strats' ws' initial_capital results_dir fs = Ok r' \<and>
              final_value r' = final_value r \<and> total_return r' = total_return r \<and>
              std_dev r' = std_dev r \<and> max_drawdown r' = max_drawdown r \<and>
              sharpe_ratio r' = sharpe_ratio r \<and> volatility r' = volatility r \<and>
              portfolio_series r' = portfolio_series r"
proof -
  from combine_order_invariant_main[OF assms] obtain r' where
    ok: "combine_portfolios strats' ws' initial_capital results_dir fs = Ok r'" and
    t: "metrics.truncate r' = metrics.truncate r" and
    s: "portfolio_series r' = portfolio_series r"
    by blast
  from t have "final_value r' = final_value r \<and> total_return r' = total_return r \<and>
               std_dev r' = std_dev r \<and> max_drawdown r' = max_drawdown r \<and>
               sharpe_ratio r' = sharpe_ratio r \<and> volatility r' = volatility r"
    by (simp add: metrics.truncate_def)
  with ok s show ?thesis by blast
qed

theorem combine_order_invariant_witness:
  "\<exists>r r'. combine_portfolios [(''X'', ''Aggressive''), (''Y'', ''Conservative'')] [1 / 4, 3 / 4] 20000
             ''trading_results'' exact_files = Ok r \<and>
          combine_portfolios [(''Y'', ''Conservative''), (''X'', ''Aggressive'')] [3 / 4, 1 / 4] 20000
             ''trading_results'' exact_files = Ok r' \<and>
          final_value r' = final_value r \<and> total_return r' = total_return r \<and>
          std_dev r' = std_dev r \<and> max_drawdown r' = max_drawdown r \<and>
          sharpe_ratio r' = sharpe_ratio r \<and> volatility r' = volatility r \<and>
          portfolio_series r' = portfolio_series r"
proof -
  obtain r where r: "combine_portfolios [(''X'', ''Aggressive''), (''Y'', ''Conservative'')] [1 / 4, 3 / 4]
      20000 ''trading_results'' exact_files = Ok r"
    using combine_first_value[OF load_all_X_Y distinct_X_Y common_X_Y nonzero_X_Y, of "[1 / 4, 3 / 4]" 20000]
    by auto
  have p: "mset (zip [(''Y'', ''Conservative''), (''X'', ''Aggressive'')] [3 / 4, 1 / 4 :: real])
             = mset (zip [(''X'', ''Aggressive''), (''Y'', ''Conservative'')] [1 / 4, 3 / 4])"
    by simp
  have a: "\<forall>p\<in>set [(''X'', ''Aggressive''), (''Y'', ''Conservative'')].
             sorted_wrt (<) (index (frame_of ''trading_results'' exact_files p))"
    by (simp add: frame_of_def load_X load_Y)
  from combine_order_invariant[OF p _ _ _ a r] r show ?thesis by auto
qed

end
